theory Spec2Isabelle
  imports Complex_Main "HOL-Library.Word"
begin

section \<open>JavaScript values\<close>

text \<open>
  A JavaScript string is a sequence of UTF-16 code units. String literals of the source
  are ASCII and are written through \<open>ascii\<close>.
\<close>

type_synonym jsstring = "16 word list"

definition ascii :: "string \<Rightarrow> jsstring" where
  "ascii cs = map of_char cs"

text \<open>
  The values that flow through the handlers: the results of \<open>JSON.parse\<close>, of
  \<open>Date.now()\<close>, the global \<open>window.player_name\<close> and absent properties
  (\<open>undefined\<close>). Numbers are exact rationals. An array or object carries the address
  it was allocated at, because \<open>===\<close> and \<open>Map\<close> keys compare objects by reference.
\<close>

datatype jsval =
    Undefined
  | Null
  | Bool bool
  | Num rat
  | Str jsstring
  | Arr nat "jsval list"
  | Obj nat "(jsstring \<times> jsval) list"

datatype exn = SyntaxError | TypeError | SendError

text \<open>Truthiness, as used by \<open>||\<close>, \<open>&&\<close>, \<open>!!\<close> and \<open>if\<close>.\<close>

fun truthy :: "jsval \<Rightarrow> bool" where
  "truthy Undefined = False"
| "truthy Null = False"
| "truthy (Bool b) = b"
| "truthy (Num r) = (r \<noteq> 0)"
| "truthy (Str s) = (s \<noteq> [])"
| "truthy (Arr _ _) = True"
| "truthy (Obj _ _) = True"

text \<open>\<open>a || b\<close>\<close>

definition js_or :: "jsval \<Rightarrow> jsval \<Rightarrow> jsval" where
  "js_or a b = (if truthy a then a else b)"

text \<open>
  \<open>a === b\<close>; the \<open>Map\<close> keys of the source are compared the same way (no \<open>NaN\<close>
  arises from JSON or from \<open>Date.now()\<close>).
\<close>

fun ref_of :: "jsval \<Rightarrow> nat option" where
  "ref_of (Arr r _) = Some r"
| "ref_of (Obj r _) = Some r"
| "ref_of _ = None"

definition strict_eq :: "jsval \<Rightarrow> jsval \<Rightarrow> bool" where
  "strict_eq a b =
     (case (ref_of a, ref_of b) of
        (Some r, Some r') \<Rightarrow> r = r'
      | (None, None) \<Rightarrow> a = b
      | _ \<Rightarrow> False)"

text \<open>
  Property read \<open>v.k\<close> for a data property \<open>k\<close> that is not built in (the source reads
  \<open>sender\<close>, \<open>id\<close>, \<open>text\<close>, \<open>user_id\<close>, \<open>player_name\<close>, \<open>connected\<close>,
  \<open>messages_sent\<close>): a \<open>TypeError\<close> on \<open>null\<close> and \<open>undefined\<close>, \<open>undefined\<close>
  where the property is absent.
\<close>

fun get_prop :: "jsval \<Rightarrow> jsstring \<Rightarrow> exn + jsval" where
  "get_prop Undefined k = Inl TypeError"
| "get_prop Null k = Inl TypeError"
| "get_prop (Obj _ kvs) k = Inr (case map_of kvs k of None \<Rightarrow> Undefined | Some v \<Rightarrow> v)"
| "get_prop _ k = Inr Undefined"

text \<open>\<open>String.prototype.trim\<close>: white space and line terminators of ECMAScript.\<close>

definition is_ws :: "16 word \<Rightarrow> bool" where
  "is_ws c \<longleftrightarrow>
     c \<in> {0x9, 0xA, 0xB, 0xC, 0xD, 0x20, 0xA0, 0x1680, 0x2028, 0x2029, 0x202F, 0x205F,
           0x3000, 0xFEFF}
     \<or> (0x2000 \<le> c \<and> c \<le> 0x200A)"

definition trim :: "jsstring \<Rightarrow> jsstring" where
  "trim s = rev (dropWhile is_ws (rev (dropWhile is_ws s)))"

section \<open>The chat view (TextChat.js)\<close>

definition MESSAGE_VISIBLE_TIME_MS :: int where
  "MESSAGE_VISIBLE_TIME_MS = 5000"

definition teamtext_bot :: jsstring where
  "teamtext_bot = ascii ''teamtext-bot''"

text \<open>
  A message object; a bot message is one whose sender is \<open>'teamtext-bot'\<close>.
  \<open>visible\<close> is \<open>None\<close> where the object has no such property
  (messages appended by \<open>send\<close>).
\<close>

record message =
  id_m :: jsval
  sender :: jsval
  text_m :: jsval
  visible :: "bool option"

record timer_entry =
  tid :: nat
  start :: int

datatype readyState = CONNECTING | OPEN_rs | CLOSING | CLOSED

datatype log = Warn string | Debug string

text \<open>
  The state of one mounted \<open>TextChat\<close>: the three \<open>useState\<close> cells, the refs, and what
  the browser holds for it (the socket, the interval, the frames handed to \<open>ws.send\<close>,
  the console). \<open>visibleTimers\<close> is the \<open>Map\<close> in insertion order; a pending
  \<open>setTimeout\<close> is exactly an entry of it, since the source adds the entry when it sets
  the timeout and removes it when the timeout fires or is cleared. \<open>ws\<close> is the socket
  made by the effect (\<open>None\<close> when the constructor threw) and \<open>wsRef\<close> tells whether
  \<open>wsRef.current\<close> still points at it.
\<close>

record state =
  messages :: "message list"
  loadingValue :: rat
  text_s :: jsstring
  visibleTimers :: "(jsval \<times> timer_entry) list"
  next_tid :: nat
  ws :: "readyState option"
  wsRef :: bool
  interval :: bool
  mounted :: bool
  outbox :: "message list"
  console :: "log list"

text \<open>What the view reads from its surroundings: \<open>JSON.parse\<close> and the global \<open>window.player_name\<close>.\<close>

record env =
  JSON_parse :: "jsstring \<Rightarrow> jsval option"
  window_player_name :: jsval

definition wsRef_current :: "state \<Rightarrow> readyState option" where
  "wsRef_current s = (if wsRef s then ws s else None)"

definition has :: "(jsval \<times> timer_entry) list \<Rightarrow> jsval \<Rightarrow> bool" where
  "has timers k = list_ex (\<lambda>e. strict_eq (fst e) k) timers"

definition delete :: "(jsval \<times> timer_entry) list \<Rightarrow> jsval \<Rightarrow> (jsval \<times> timer_entry) list" where
  "delete timers k = filter (\<lambda>e. \<not> strict_eq (fst e) k) timers"

definition is_loading :: "message \<Rightarrow> bool" where
  "is_loading m \<longleftrightarrow> sender m = Str teamtext_bot \<and> visible m = Some True"

subsection \<open>Effects run after a render with new \<open>messages\<close>\<close>

text \<open>
  Lines 91 to 102: a bot message that is visible and has no timer entry gets one, started at
  the current \<open>Date.now()\<close>.
\<close>

definition schedule_one :: "int \<Rightarrow> message \<Rightarrow> state \<Rightarrow> state" where
  "schedule_one now m s =
     (if is_loading m \<and> \<not> has (visibleTimers s) (id_m m)
      then s\<lparr>visibleTimers := visibleTimers s @ [(id_m m, \<lparr>tid = next_tid s, start = now\<rparr>)],
             next_tid := Suc (next_tid s)\<rparr>
      else s)"

definition schedule :: "int \<Rightarrow> state \<Rightarrow> state" where
  "schedule now s = fold (schedule_one now) (messages s) s"

text \<open>
  Lines 114 to 137: the previous interval is cleared; a new one is set while any bot
  message is visible, otherwise the progress value is reset.
\<close>

definition progress_effect :: "state \<Rightarrow> state" where
  "progress_effect s =
     (if list_ex is_loading (messages s)
      then s\<lparr>interval := True\<rparr>
      else s\<lparr>loadingValue := 0, interval := False\<rparr>)"

definition rerender :: "int \<Rightarrow> state \<Rightarrow> state" where
  "rerender now s = (if mounted s then progress_effect (schedule now s) else s)"

subsection \<open>Callbacks\<close>

text \<open>Lines 118 to 129, the interval callback.\<close>

definition tick :: "int \<Rightarrow> state \<Rightarrow> state" where
  "tick now s =
     (let starts = filter (\<lambda>v. v \<noteq> 0) (map (\<lambda>e. start (snd e)) (visibleTimers s))
      in if starts = [] then s\<lparr>loadingValue := 0\<rparr>
         else let minStart = Min (set starts);
                  elapsed = now - minStart;
                  percent = min 100 ((of_int elapsed / of_int MESSAGE_VISIBLE_TIME_MS) * 100)
              in s\<lparr>loadingValue := percent\<rparr>)"

text \<open>Lines 95 to 98, the timeout callback of the message with id \<open>k\<close>.\<close>

definition hide :: "jsval \<Rightarrow> state \<Rightarrow> state" where
  "hide k s =
     s\<lparr>messages := map (\<lambda>msg. if strict_eq (id_m msg) k then msg\<lparr>visible := Some False\<rparr> else msg)
                       (messages s),
       visibleTimers := delete (visibleTimers s) k\<rparr>"

text \<open>Lines 54 to 67: the body of the \<open>try\<close>, then the handler with its \<open>catch\<close>.\<close>

definition onmessage_try :: "env \<Rightarrow> int \<Rightarrow> jsstring \<Rightarrow> state \<Rightarrow> exn + state" where
  "onmessage_try e now data s =
     (case JSON_parse e data of
        None \<Rightarrow> Inl SyntaxError
      | Some payload \<Rightarrow>
          if \<not> truthy payload then Inr s
          else (case get_prop payload (ascii ''sender'') of
                  Inl x \<Rightarrow> Inl x
                | Inr sndr \<Rightarrow>
                    if sndr \<noteq> Str teamtext_bot then Inr s
                    else (case get_prop payload (ascii ''id'') of
                            Inl x \<Rightarrow> Inl x
                          | Inr pid \<Rightarrow>
                              (case get_prop payload (ascii ''text'') of
                                 Inl x \<Rightarrow> Inl x
                               | Inr ptext \<Rightarrow>
                                   Inr (s\<lparr>messages := messages s @
                                            [\<lparr>id_m = js_or pid (Num (of_int now)),
                                              sender = Str teamtext_bot,
                                              text_m = js_or ptext (Str []),
                                              visible = Some True\<rparr>]\<rparr>)))))"

definition onmessage :: "env \<Rightarrow> int \<Rightarrow> jsstring \<Rightarrow> state \<Rightarrow> state" where
  "onmessage e now data s =
     (case onmessage_try e now data s of
        Inl x \<Rightarrow> s\<lparr>console := console s @ [Warn ''Failed to parse WS message'']\<rparr>
      | Inr s' \<Rightarrow> s')"

text \<open>
  Lines 139 to 159. \<open>throws\<close> tells whether \<open>ws.send\<close> raises; the frame handed to the
  socket is recorded as the object that is stringified.
\<close>

definition send :: "env \<Rightarrow> int \<Rightarrow> bool \<Rightarrow> state \<Rightarrow> state" where
  "send e now throws s =
     (let trimmed = trim (text_s s) in
      if trimmed = [] then s
      else
        let m = \<lparr>id_m = Num (of_int now), sender = window_player_name e, text_m = Str trimmed,
                 visible = None\<rparr>;
            s1 = s\<lparr>messages := messages s @ [m], text_s := []\<rparr>
        in if wsRef_current s = Some OPEN_rs
           then (if throws
                 then s1\<lparr>console := console s1 @ [Warn ''Failed to send message over WebSocket'']\<rparr>
                 else s1\<lparr>outbox := outbox s1 @ [m]\<rparr>)
           else s1\<lparr>console := console s1 @
                     [Warn ''WebSocket not connected - message sent only locally'']\<rparr>)"

subsection \<open>The socket and the teardown\<close>

text \<open>Lines 49 to 52 and 73 to 77; the browser has set \<open>readyState\<close> before it calls them.\<close>

definition onopen :: "state \<Rightarrow> state" where
  "onopen s = s\<lparr>ws := Some OPEN_rs, console := console s @ [Debug ''WebSocket connected to'']\<rparr>"

definition onerror :: "state \<Rightarrow> state" where
  "onerror s = s\<lparr>console := console s @ [Warn ''WebSocket error'']\<rparr>"

definition onclose :: "state \<Rightarrow> state" where
  "onclose s = s\<lparr>ws := Some CLOSED, wsRef := False,
                  console := console s @ [Debug ''WebSocket closed'']\<rparr>"

text \<open>
  Lines 79 to 86: the socket is closed only when it is open; a socket that is still
  connecting is left as it is.
\<close>

definition ws_cleanup :: "state \<Rightarrow> state" where
  "ws_cleanup s =
     (case ws s of
        None \<Rightarrow> s
      | Some r \<Rightarrow> s\<lparr>ws := Some (if r = OPEN_rs then CLOSING else r), wsRef := False\<rparr>)"

text \<open>Lines 107 to 110: every timeout is cleared and the \<open>Map\<close> emptied.\<close>

definition timers_cleanup :: "state \<Rightarrow> state" where
  "timers_cleanup s = s\<lparr>visibleTimers := []\<rparr>"

text \<open>Lines 134 to 136.\<close>

definition interval_cleanup :: "state \<Rightarrow> state" where
  "interval_cleanup s = s\<lparr>interval := False\<rparr>"

definition unmount :: "state \<Rightarrow> state" where
  "unmount s = (interval_cleanup (timers_cleanup (ws_cleanup s)))\<lparr>mounted := False\<rparr>"

subsection \<open>Events\<close>

text \<open>
  What can happen to the view. \<open>Send now throws\<close> is a click on send or Enter at
  \<open>Date.now() = now\<close>; \<open>Inbound data now\<close> a frame with \<open>ev.data = data\<close>;
  \<open>HideTimer k\<close> the timeout of the message with id \<open>k\<close>; \<open>Tick now\<close> the
  interval; \<open>SetText\<close> the text field's \<open>onChange\<close>.
\<close>

datatype event =
    Send int bool
  | Inbound jsstring int
  | HideTimer jsval
  | Tick int
  | SetText jsstring
  | WsOpen
  | WsError
  | WsClose
  | Unmount

text \<open>
  When the browser can deliver an event: the user acts on a mounted view only, a timeout
  fires only while it is pending, the interval only while it is set, a frame arrives only
  on an open socket.
\<close>

fun enabled :: "event \<Rightarrow> state \<Rightarrow> bool" where
  "enabled (Send _ _) s = mounted s"
| "enabled (Inbound _ _) s = (ws s = Some OPEN_rs)"
| "enabled (HideTimer k) s = has (visibleTimers s) k"
| "enabled (Tick _) s = interval s"
| "enabled (SetText _) s = mounted s"
| "enabled WsOpen s = (ws s = Some CONNECTING)"
| "enabled WsError s = (ws s \<noteq> None \<and> ws s \<noteq> Some CLOSED)"
| "enabled WsClose s = (ws s \<noteq> None \<and> ws s \<noteq> Some CLOSED)"
| "enabled Unmount s = mounted s"

text \<open>
  One event: the handler, then the effects when the handler has called \<open>setMessages\<close>;
  \<open>t\<close> is the \<open>Date.now()\<close> the effects read. After the unmount no effect runs; the
  field \<open>messages\<close> then records what a handler still passes to \<open>setMessages\<close>.
\<close>

fun step :: "env \<Rightarrow> event \<Rightarrow> int \<Rightarrow> state \<Rightarrow> state" where
  "step e (Send now throws) t s =
     (if trim (text_s s) = [] then send e now throws s else rerender t (send e now throws s))"
| "step e (Inbound data now) t s =
     (let s' = onmessage e now data s
      in if messages s' = messages s then s' else rerender t s')"
| "step e (HideTimer k) t s = rerender t (hide k s)"
| "step e (Tick now) t s = tick now s"
| "step e (SetText v) t s = s\<lparr>text_s := v\<rparr>"
| "step e WsOpen t s = onopen s"
| "step e WsError t s = onerror s"
| "step e WsClose t s = onclose s"
| "step e Unmount t s = unmount s"

definition next_state :: "env \<Rightarrow> event \<times> int \<Rightarrow> state \<Rightarrow> state" where
  "next_state e et s = (if enabled (fst et) s then step e (fst et) (snd et) s else s)"

definition run :: "env \<Rightarrow> (event \<times> int) list \<Rightarrow> state \<Rightarrow> state" where
  "run e evs s = fold (next_state e) evs s"

text \<open>
  The state after the first render and its effects (lines 9 to 16, 26 to 47, 91 to 137);
  \<open>ws_ok\<close> is false when the \<open>WebSocket\<close> constructor throws.
\<close>

definition initial_message :: message where
  "initial_message =
     \<lparr>id_m = Num 1, sender = Str teamtext_bot,
      text_m = Str (ascii ''You're waiting for a message from another texter. It should appear shortly...''),
      visible = Some True\<rparr>"

definition mount :: "bool \<Rightarrow> int \<Rightarrow> state" where
  "mount ws_ok now =
     rerender now
       \<lparr>messages = [initial_message], loadingValue = 0, text_s = [], visibleTimers = [],
        next_tid = 0, ws = (if ws_ok then Some CONNECTING else None), wsRef = ws_ok,
        interval = False, mounted = True, outbox = [],
        console = (if ws_ok then [] else [Warn ''WebSocket constructor failed''])\<rparr>"

subsection \<open>How the store may change\<close>

text \<open>
  \<open>flipped a b\<close>: the stored message \<open>b\<close> is \<open>a\<close> itself, or \<open>a\<close> with \<open>visible\<close> set to
  false and every other field as it was. This is what line 96 does to a message: it matches
  on the id alone, so the message may be of any sender and may have had no \<open>visible\<close>
  property before.
\<close>

definition flipped :: "message \<Rightarrow> message \<Rightarrow> bool" where
  "flipped a b \<longleftrightarrow> b = a \<or> b = a\<lparr>visible := Some False\<rparr>"

text \<open>
  \<open>evolves old new\<close>: nothing was removed and nothing reordered, and every message of \<open>old\<close>
  is in its place in \<open>new\<close>, as it was or with \<open>visible\<close> set to false.
\<close>

definition evolves :: "message list \<Rightarrow> message list \<Rightarrow> bool" where
  "evolves old new \<longleftrightarrow>
     length old \<le> length new \<and> list_all2 flipped old (take (length old) new)"

text \<open>
  The invariant that ties the interval and the progress value to the store: a mounted view
  samples exactly while a bot message is visible, an idle store has progress 0 and no
  interval, and an unmounted view has neither timeouts nor an interval.
\<close>

definition progress_inv :: "state \<Rightarrow> bool" where
  "progress_inv s \<longleftrightarrow>
     (mounted s \<longrightarrow> interval s = list_ex is_loading (messages s))
     \<and> (\<not> list_ex is_loading (messages s) \<longrightarrow> loadingValue s = 0 \<and> \<not> interval s)
     \<and> (\<not> mounted s \<longrightarrow> visibleTimers s = [] \<and> \<not> interval s)"

section \<open>The participant list (AdminPage.js)\<close>

record participant =
  user_id :: jsval
  player_name :: jsval
  connected :: bool
  messages_sent :: jsval

text \<open>
  The callback of \<open>data.map\<close> in \<open>fetchParticipants\<close>; \<open>a\<close> is the address at which the
  array literal \<open>[]\<close> is allocated.
\<close>

definition normalize :: "nat \<Rightarrow> jsval \<Rightarrow> exn + participant" where
  "normalize a u =
     (case get_prop u (ascii ''user_id'') of
        Inl x \<Rightarrow> Inl x
      | Inr uid \<Rightarrow>
     (case get_prop u (ascii ''player_name'') of
        Inl x \<Rightarrow> Inl x
      | Inr pn \<Rightarrow>
     (case get_prop u (ascii ''connected'') of
        Inl x \<Rightarrow> Inl x
      | Inr c \<Rightarrow>
     (case get_prop u (ascii ''messages_sent'') of
        Inl x \<Rightarrow> Inl x
      | Inr ms \<Rightarrow>
          Inr \<lparr>user_id = uid, player_name = js_or pn uid, connected = truthy c,
               messages_sent = js_or ms (Arr a [])\<rparr>))))"

text \<open>\<open>data.map\<close> over the elements in order; the first callback that throws ends it.\<close>

fun normalize_all :: "nat \<Rightarrow> jsval list \<Rightarrow> exn + participant list" where
  "normalize_all a [] = Inr []"
| "normalize_all a (u # us) =
     (case normalize a u of
        Inl x \<Rightarrow> Inl x
      | Inr p \<Rightarrow>
          (case normalize_all (Suc a) us of
             Inl x \<Rightarrow> Inl x
           | Inr ps \<Rightarrow> Inr (p # ps)))"

text \<open>
  What \<open>fetch\<close> and \<open>res.json()\<close> give: the request fails, or a response arrives with its
  \<open>ok\<close> flag, its status and its body read as JSON (\<open>None\<close> when the body does not
  parse).
\<close>

datatype response = Rejected | Response bool nat "jsval option"

datatype fetch_error = FetchFailed | Http nat | Thrown exn

record admin =
  participants :: "participant list"
  loading :: bool
  error :: "fetch_error option"

definition fetchParticipants_try :: "response \<Rightarrow> nat \<Rightarrow> fetch_error + participant list" where
  "fetchParticipants_try res a =
     (case res of
        Rejected \<Rightarrow> Inl FetchFailed
      | Response ok status body \<Rightarrow>
          if \<not> ok then Inl (Http status)
          else (case body of
                  None \<Rightarrow> Inl (Thrown SyntaxError)
                | Some (Arr _ us) \<Rightarrow>
                    (case normalize_all a us of
                       Inl x \<Rightarrow> Inl (Thrown x)
                     | Inr ps \<Rightarrow> Inr ps)
                | Some _ \<Rightarrow> Inl (Thrown TypeError)))"

definition fetchParticipants :: "response \<Rightarrow> nat \<Rightarrow> admin \<Rightarrow> admin" where
  "fetchParticipants res a s =
     (case fetchParticipants_try res a of
        Inl x \<Rightarrow> s\<lparr>loading := False, error := Some x\<rparr>
      | Inr ps \<Rightarrow> s\<lparr>participants := ps, loading := False, error := None\<rparr>)"


section \<open>Lemmas about the model\<close>

subsection \<open>What the effects leave alone\<close>

lemma schedule_one_frame:
  "messages (schedule_one now m s) = messages s \<and> loadingValue (schedule_one now m s) = loadingValue s
   \<and> text_s (schedule_one now m s) = text_s s \<and> ws (schedule_one now m s) = ws s
   \<and> wsRef (schedule_one now m s) = wsRef s \<and> interval (schedule_one now m s) = interval s
   \<and> mounted (schedule_one now m s) = mounted s \<and> outbox (schedule_one now m s) = outbox s
   \<and> console (schedule_one now m s) = console s"
  by (simp add: schedule_one_def)

lemma fold_schedule_one_frame:
  "messages (fold (schedule_one now) ms s) = messages s \<and> loadingValue (fold (schedule_one now) ms s) = loadingValue s
   \<and> text_s (fold (schedule_one now) ms s) = text_s s \<and> ws (fold (schedule_one now) ms s) = ws s
   \<and> wsRef (fold (schedule_one now) ms s) = wsRef s \<and> interval (fold (schedule_one now) ms s) = interval s
   \<and> mounted (fold (schedule_one now) ms s) = mounted s \<and> outbox (fold (schedule_one now) ms s) = outbox s
   \<and> console (fold (schedule_one now) ms s) = console s"
  by (induction ms arbitrary: s) (simp_all add: schedule_one_frame)

lemma schedule_frame [simp]:
  "messages (schedule now s) = messages s" "loadingValue (schedule now s) = loadingValue s"
  "text_s (schedule now s) = text_s s" "ws (schedule now s) = ws s"
  "wsRef (schedule now s) = wsRef s" "interval (schedule now s) = interval s"
  "mounted (schedule now s) = mounted s" "outbox (schedule now s) = outbox s"
  "console (schedule now s) = console s"
  by (simp_all add: schedule_def fold_schedule_one_frame)

lemma progress_effect_frame [simp]:
  "messages (progress_effect s) = messages s" "text_s (progress_effect s) = text_s s"
  "visibleTimers (progress_effect s) = visibleTimers s" "next_tid (progress_effect s) = next_tid s"
  "ws (progress_effect s) = ws s" "wsRef (progress_effect s) = wsRef s"
  "mounted (progress_effect s) = mounted s" "outbox (progress_effect s) = outbox s"
  "console (progress_effect s) = console s"
  by (simp_all add: progress_effect_def)

lemma rerender_frame [simp]:
  "messages (rerender t s) = messages s" "text_s (rerender t s) = text_s s"
  "ws (rerender t s) = ws s" "wsRef (rerender t s) = wsRef s"
  "mounted (rerender t s) = mounted s" "outbox (rerender t s) = outbox s"
  "console (rerender t s) = console s"
  by (simp_all add: rerender_def)

lemma onmessage_frame [simp]:
  "loadingValue (onmessage e now data s) = loadingValue s"
  "text_s (onmessage e now data s) = text_s s"
  "visibleTimers (onmessage e now data s) = visibleTimers s"
  "next_tid (onmessage e now data s) = next_tid s"
  "ws (onmessage e now data s) = ws s"
  "wsRef (onmessage e now data s) = wsRef s"
  "interval (onmessage e now data s) = interval s"
  "mounted (onmessage e now data s) = mounted s"
  "outbox (onmessage e now data s) = outbox s"
  by (simp_all add: onmessage_def onmessage_try_def split: option.splits sum.splits)

lemma onmessage_messages:
  "messages (onmessage e now data s) = messages s
   \<or> (\<exists>m. is_loading m \<and> messages (onmessage e now data s) = messages s @ [m])"
  by (simp add: onmessage_def onmessage_try_def is_loading_def split: option.splits sum.splits)

lemma send_frame [simp]:
  "loadingValue (send e now throws s) = loadingValue s"
  "visibleTimers (send e now throws s) = visibleTimers s"
  "next_tid (send e now throws s) = next_tid s"
  "ws (send e now throws s) = ws s"
  "wsRef (send e now throws s) = wsRef s"
  "interval (send e now throws s) = interval s"
  "mounted (send e now throws s) = mounted s"
  by (simp_all add: send_def Let_def)

lemma send_messages:
  "messages (send e now throws s) =
     (if trim (text_s s) = [] then messages s
      else messages s @ [\<lparr>id_m = Num (of_int now), sender = window_player_name e,
                           text_m = Str (trim (text_s s)), visible = None\<rparr>])"
  by (simp add: send_def Let_def)

lemma tick_frame [simp]:
  "messages (tick now s) = messages s"
  "visibleTimers (tick now s) = visibleTimers s"
  "interval (tick now s) = interval s"
  "mounted (tick now s) = mounted s"
  "ws (tick now s) = ws s"
  by (simp_all add: tick_def Let_def)

lemma hide_frame [simp]:
  "loadingValue (hide k s) = loadingValue s" "interval (hide k s) = interval s"
  "mounted (hide k s) = mounted s" "ws (hide k s) = ws s"
  by (simp_all add: hide_def)

lemma messages_hide:
  "messages (hide k s) =
     map (\<lambda>msg. if strict_eq (id_m msg) k then msg\<lparr>visible := Some False\<rparr> else msg) (messages s)"
  by (simp add: hide_def)

lemma unmount_frame [simp]:
  "messages (unmount s) = messages s" "loadingValue (unmount s) = loadingValue s"
  "visibleTimers (unmount s) = []" "interval (unmount s) = False" "mounted (unmount s) = False"
  by (simp_all add: unmount_def interval_cleanup_def timers_cleanup_def ws_cleanup_def
      split: option.splits)

lemma rerender_unmounted [simp]:
  "\<not> mounted s \<Longrightarrow> rerender t s = s"
  by (simp add: rerender_def)

lemma mount_eq:
  "mount ws_ok now =
     \<lparr>messages = [initial_message], loadingValue = 0, text_s = [],
      visibleTimers = [(Num 1, \<lparr>tid = 0, start = now\<rparr>)], next_tid = Suc 0,
      ws = (if ws_ok then Some CONNECTING else None), wsRef = ws_ok,
      interval = True, mounted = True, outbox = [],
      console = (if ws_ok then [] else [Warn ''WebSocket constructor failed''])\<rparr>"
  by (simp add: mount_def rerender_def schedule_def schedule_one_def progress_effect_def
      is_loading_def initial_message_def has_def)

lemma run_snoc: "run e (evs @ [et]) s = next_state e et (run e evs s)"
  by (simp add: run_def)

subsection \<open>Keys of the timer map\<close>

lemma strict_eq_refl [simp]: "strict_eq a a"
  by (cases a) (simp_all add: strict_eq_def)

lemma strict_eq_sym: "strict_eq a b \<Longrightarrow> strict_eq b a"
  by (cases "ref_of a"; cases "ref_of b") (auto simp: strict_eq_def)

lemma strict_eq_trans: "strict_eq a b \<Longrightarrow> strict_eq b c \<Longrightarrow> strict_eq a c"
  by (cases "ref_of a"; cases "ref_of b"; cases "ref_of c") (auto simp: strict_eq_def)

lemma has_iff: "has timers k \<longleftrightarrow> (\<exists>e\<in>set timers. strict_eq (fst e) k)"
  by (simp add: has_def list_ex_iff)

lemma has_Nil [simp]: "\<not> has [] k"
  by (simp add: has_def)

lemma has_append [simp]: "has (xs @ ys) k \<longleftrightarrow> has xs k \<or> has ys k"
  by (auto simp: has_iff)

lemma has_delete [simp]: "\<not> has (delete timers k) k"
  by (simp add: has_iff delete_def)

lemma has_schedule_one:
  "has (visibleTimers (schedule_one now m s)) k \<longleftrightarrow>
     has (visibleTimers s) k \<or> (is_loading m \<and> \<not> has (visibleTimers s) (id_m m) \<and> strict_eq (id_m m) k)"
  by (auto simp: schedule_one_def has_iff)

lemma has_fold_schedule_one:
  "has (visibleTimers (fold (schedule_one now) ms s)) k \<Longrightarrow>
     has (visibleTimers s) k \<or> (\<exists>m\<in>set ms. is_loading m \<and> strict_eq (id_m m) k)"
proof (induction ms arbitrary: s)
  case Nil
  then show ?case by simp
next
  case (Cons m ms)
  from Cons.IH [of "schedule_one now m s"] Cons.prems
  show ?case by (auto simp: has_schedule_one)
qed

lemma has_fold_schedule_one_mono:
  "has (visibleTimers s) k \<Longrightarrow> has (visibleTimers (fold (schedule_one now) ms s)) k"
  by (induction ms arbitrary: s) (simp_all add: has_schedule_one)

lemma fold_schedule_one_covers:
  "m \<in> set ms \<Longrightarrow> is_loading m \<Longrightarrow> has (visibleTimers (fold (schedule_one now) ms s)) (id_m m)"
proof (induction ms arbitrary: s)
  case Nil
  then show ?case by simp
next
  case (Cons a ms)
  show ?case
  proof (cases "m = a")
    case True
    with Cons.prems have "has (visibleTimers (schedule_one now a s)) (id_m m)"
      by (auto simp: has_schedule_one)
    then show ?thesis by (simp add: has_fold_schedule_one_mono)
  next
    case False
    with Cons show ?thesis by simp
  qed
qed

lemma schedule_covers:
  "m \<in> set (messages s) \<Longrightarrow> is_loading m \<Longrightarrow> has (visibleTimers (schedule now s)) (id_m m)"
  unfolding schedule_def by (rule fold_schedule_one_covers)

lemma has_schedule:
  "has (visibleTimers (schedule now s)) k \<Longrightarrow>
     has (visibleTimers s) k \<or> (\<exists>m\<in>set (messages s). is_loading m \<and> strict_eq (id_m m) k)"
  unfolding schedule_def by (rule has_fold_schedule_one)

lemma hide_not_loading:
  "m \<in> set (messages (hide k s)) \<Longrightarrow> strict_eq (id_m m) k \<Longrightarrow> \<not> is_loading m"
  by (auto simp: messages_hide is_loading_def split: if_splits)

lemma has_rerender_hide: "\<not> has (visibleTimers (rerender t (hide k s))) k"
proof
  assume h: "has (visibleTimers (rerender t (hide k s))) k"
  then have "has (visibleTimers (schedule t (hide k s))) k \<or> has (visibleTimers (hide k s)) k"
    by (simp add: rerender_def split: if_splits)
  moreover have "\<not> has (visibleTimers (hide k s)) k"
    by (simp add: hide_def)
  ultimately have "\<exists>m\<in>set (messages (hide k s)). is_loading m \<and> strict_eq (id_m m) k"
    using has_schedule by blast
  then show False using hide_not_loading by blast
qed

subsection \<open>The store only grows or hides\<close>

lemma flipped_refl [simp]: "flipped a a"
  by (simp add: flipped_def)

lemma flipped_trans: "flipped a b \<Longrightarrow> flipped b c \<Longrightarrow> flipped a c"
  by (auto simp: flipped_def)

lemma flipped_visible: "flipped a b \<Longrightarrow> visible a \<noteq> Some True \<Longrightarrow> visible b \<noteq> Some True"
  by (auto simp: flipped_def)

lemma evolves_refl [simp]: "evolves xs xs"
  by (simp add: evolves_def list_all2_conv_all_nth)

lemma evolves_append [simp]: "evolves xs (xs @ ys)"
  by (simp add: evolves_def list_all2_conv_all_nth)

lemma evolves_flipped: "list_all2 flipped xs ys \<Longrightarrow> evolves xs ys"
  by (simp add: evolves_def list_all2_lengthD)

lemma evolves_trans:
  assumes "evolves xs ys" and "evolves ys zs"
  shows "evolves xs zs"
proof -
  from assms have l1: "length xs \<le> length ys" and l2: "length ys \<le> length zs"
    by (simp_all add: evolves_def)
  have "flipped (xs ! i) (zs ! i)" if "i < length xs" for i
  proof -
    from assms(1) that l1 have "flipped (xs ! i) (ys ! i)"
      by (auto simp: evolves_def list_all2_conv_all_nth)
    moreover from assms(2) that l1 l2 have "flipped (ys ! i) (zs ! i)"
      by (auto simp: evolves_def list_all2_conv_all_nth)
    ultimately show ?thesis by (rule flipped_trans)
  qed
  with l1 l2 show ?thesis
    by (simp add: evolves_def list_all2_conv_all_nth)
qed

lemma hide_flipped: "list_all2 flipped (messages s) (messages (hide k s))"
  by (simp add: messages_hide list_all2_conv_all_nth flipped_def)

lemma step_messages:
  "(\<exists>m. messages (step e ev t s) = messages s @ [m])
   \<or> list_all2 flipped (messages s) (messages (step e ev t s))"
proof (cases ev)
  case (Send now throws)
  then show ?thesis by (simp add: send_messages list_all2_conv_all_nth)
next
  case (Inbound data now)
  with onmessage_messages [of e now data s] show ?thesis
    by (auto simp: Let_def list_all2_conv_all_nth)
next
  case (HideTimer k)
  then show ?thesis by (simp add: hide_flipped)
qed (simp_all add: list_all2_conv_all_nth onopen_def onerror_def onclose_def)

lemma step_messages_cases:
  "messages (step e ev t s) = messages s
   \<or> (\<exists>m. messages (step e ev t s) = messages s @ [m])
   \<or> (\<exists>k. ev = HideTimer k
          \<and> messages (step e ev t s) =
              map (\<lambda>msg. if strict_eq (id_m msg) k then msg\<lparr>visible := Some False\<rparr> else msg)
                (messages s))"
proof (cases ev)
  case (Send now throws)
  then show ?thesis by (simp add: send_messages)
next
  case (Inbound data now)
  with onmessage_messages [of e now data s] show ?thesis
    by (auto simp: Let_def)
next
  case (HideTimer k)
  then show ?thesis by (simp add: messages_hide)
qed (simp_all add: onopen_def onerror_def onclose_def)

lemma step_evolves: "evolves (messages s) (messages (step e ev t s))"
  using step_messages [of e ev t s] by (auto intro: evolves_flipped)

lemma run_evolves: "evolves (messages s) (messages (run e evs s))"
proof (induction evs arbitrary: s)
  case Nil
  then show ?case by (simp add: run_def)
next
  case (Cons et evs)
  have "evolves (messages s) (messages (next_state e et s))"
    by (simp add: next_state_def step_evolves)
  moreover have "evolves (messages (next_state e et s)) (messages (run e evs (next_state e et s)))"
    by (rule Cons.IH)
  ultimately show ?case
    by (simp add: run_def evolves_trans)
qed

lemma evolves_visible:
  "evolves xs ys \<Longrightarrow> i < length xs \<Longrightarrow> visible (xs ! i) \<noteq> Some True \<Longrightarrow> visible (ys ! i) \<noteq> Some True"
  by (auto simp: evolves_def list_all2_conv_all_nth dest: flipped_visible)

subsection \<open>Every visible bot message of a mounted view has its timeout pending\<close>

lemma rerender_covers:
  assumes "mounted s" and "m \<in> set (messages (rerender t s))" and "is_loading m"
  shows "has (visibleTimers (rerender t s)) (id_m m)"
  using assms schedule_covers [of m s t] by (simp add: rerender_def)

lemma step_covers:
  assumes inv: "\<forall>m\<in>set (messages s). is_loading m \<longrightarrow> has (visibleTimers s) (id_m m)"
    and mt: "mounted (step e ev t s)"
    and m: "m \<in> set (messages (step e ev t s))" "is_loading m"
  shows "has (visibleTimers (step e ev t s)) (id_m m)"
proof (cases ev)
  case (Send now throws)
  show ?thesis
  proof (cases "trim (text_s s) = []")
    case True
    with Send inv m show ?thesis by (simp add: send_def)
  next
    case False
    with Send mt m rerender_covers [of "send e now throws s" m t] show ?thesis by simp
  qed
next
  case (Inbound data now)
  show ?thesis
  proof (cases "messages (onmessage e now data s) = messages s")
    case True
    with Inbound inv m show ?thesis by (simp add: Let_def)
  next
    case False
    with Inbound mt m rerender_covers [of "onmessage e now data s" m t] show ?thesis
      by (simp add: Let_def)
  qed
next
  case (HideTimer k)
  with mt m rerender_covers [of "hide k s" m t] show ?thesis
    by (simp add: hide_def)
next
  case (Tick now)
  with inv m show ?thesis by simp
next
  case Unmount
  with mt show ?thesis by simp
qed (use inv m in \<open>simp_all add: onopen_def onerror_def onclose_def\<close>)

lemma mounted_step: "mounted (step e ev t s) \<Longrightarrow> mounted s"
  by (cases ev) (simp_all add: Let_def onopen_def onerror_def onclose_def tick_def split: if_splits)

lemma mounted_next_state: "mounted (next_state e et s) \<Longrightarrow> mounted s"
  by (auto simp: next_state_def dest: mounted_step split: if_splits)

lemma run_covers:
  "mounted (run e evs (mount ws_ok t0)) \<Longrightarrow> m \<in> set (messages (run e evs (mount ws_ok t0)))
     \<Longrightarrow> is_loading m \<Longrightarrow> has (visibleTimers (run e evs (mount ws_ok t0))) (id_m m)"
proof (induction evs arbitrary: m rule: rev_induct)
  case Nil
  then show ?case by (simp add: run_def mount_eq has_def is_loading_def initial_message_def)
next
  case (snoc et evs)
  let ?s = "run e evs (mount ws_ok t0)"
  from snoc.prems(1) have mt: "mounted ?s"
    by (auto simp: run_snoc dest: mounted_next_state)
  with snoc.IH have inv: "\<forall>m\<in>set (messages ?s). is_loading m \<longrightarrow> has (visibleTimers ?s) (id_m m)"
    by blast
  show ?case
  proof (cases "enabled (fst et) ?s")
    case True
    with snoc.prems step_covers [OF inv, of e "fst et" "snd et" m] show ?thesis
      by (simp add: run_snoc next_state_def)
  next
    case False
    with snoc.prems inv show ?thesis by (simp add: run_snoc next_state_def)
  qed
qed

lemma step_hide_hidden:
  "m' \<in> set (messages (step e (HideTimer k) t s)) \<Longrightarrow> strict_eq (id_m m') k \<Longrightarrow> visible m' = Some False"
  by (auto simp: messages_hide split: if_splits)

subsection \<open>The interval follows the store\<close>

lemma rerender_progress_inv: "mounted s \<Longrightarrow> progress_inv (rerender t s)"
  by (simp add: progress_inv_def rerender_def progress_effect_def)

lemma step_progress_inv:
  assumes inv: "progress_inv s" and en: "enabled ev s"
  shows "progress_inv (step e ev t s)"
proof (cases ev)
  case (Send now throws)
  with en have "mounted (send e now throws s)" by simp
  with Send inv show ?thesis
    by (simp add: rerender_progress_inv) (simp add: send_def)
next
  case (Inbound data now)
  show ?thesis
  proof (cases "mounted s")
    case True
    then have mt: "mounted (onmessage e now data s)" by simp
    show ?thesis
    proof (cases "messages (onmessage e now data s) = messages s")
      case True
      with Inbound inv show ?thesis by (simp add: Let_def progress_inv_def)
    next
      case False
      with Inbound mt show ?thesis by (simp add: Let_def rerender_progress_inv)
    qed
  next
    case False
    with Inbound inv onmessage_messages [of e now data s] show ?thesis
      by (auto simp: Let_def progress_inv_def)
  qed
next
  case (HideTimer k)
  with en inv have "mounted s" by (auto simp: progress_inv_def)
  then have "mounted (hide k s)" by simp
  with HideTimer show ?thesis by (simp add: rerender_progress_inv)
next
  case (Tick now)
  with en inv show ?thesis by (auto simp: progress_inv_def)
next
  case Unmount
  with inv show ?thesis by (simp add: progress_inv_def)
qed (use inv in \<open>simp_all add: progress_inv_def onopen_def onerror_def onclose_def\<close>)

lemma run_progress_inv: "progress_inv (run e evs (mount ws_ok t0))"
proof (induction evs rule: rev_induct)
  case Nil
  show ?case
    by (simp add: run_def mount_eq progress_inv_def is_loading_def initial_message_def)
next
  case (snoc et evs)
  then show ?case
    by (simp add: run_snoc next_state_def step_progress_inv)
qed

subsection \<open>After the teardown\<close>

lemma step_torn:
  assumes "\<not> mounted s" and "visibleTimers s = []" and "enabled ev s"
  shows "\<not> mounted (step e ev t s) \<and> visibleTimers (step e ev t s) = []"
  using assms by (cases ev) (simp_all add: Let_def onopen_def onerror_def onclose_def)

lemma run_torn:
  "\<not> mounted s \<Longrightarrow> visibleTimers s = [] \<Longrightarrow>
     \<not> mounted (run e evs s) \<and> visibleTimers (run e evs s) = []"
proof (induction evs rule: rev_induct)
  case Nil
  then show ?case by (simp add: run_def)
next
  case (snoc et evs)
  then show ?case
    using step_torn [of "run e evs s" "fst et" e "snd et"]
    by (simp add: run_snoc next_state_def)
qed

lemma step_closed:
  assumes "\<not> mounted s" and "visibleTimers s = []" and "ws s \<noteq> Some CONNECTING"
    and "ws s \<noteq> Some OPEN_rs" and "enabled ev s"
  shows "ws (step e ev t s) \<noteq> Some CONNECTING \<and> ws (step e ev t s) \<noteq> Some OPEN_rs
         \<and> messages (step e ev t s) = messages s"
  using assms by (cases ev) (simp_all add: Let_def onopen_def onerror_def onclose_def)

lemma run_closed:
  assumes "\<not> mounted s" and "visibleTimers s = []" and "ws s \<noteq> Some CONNECTING"
    and "ws s \<noteq> Some OPEN_rs"
  shows "ws (run e evs s) \<noteq> Some CONNECTING \<and> ws (run e evs s) \<noteq> Some OPEN_rs
         \<and> messages (run e evs s) = messages s"
proof (induction evs rule: rev_induct)
  case Nil
  from assms show ?case by (simp add: run_def)
next
  case (snoc et evs)
  from run_torn [OF assms(1,2), of e evs]
  have torn: "\<not> mounted (run e evs s)" "visibleTimers (run e evs s) = []" by simp_all
  show ?case
  proof (cases "enabled (fst et) (run e evs s)")
    case True
    with step_closed [OF torn, of "fst et" e "snd et"] snoc.IH show ?thesis
      by (simp add: run_snoc next_state_def)
  next
    case False
    with snoc.IH show ?thesis by (simp add: run_snoc next_state_def)
  qed
qed

lemma ws_unmount:
  "ws (unmount s) \<noteq> Some OPEN_rs" "ws s \<noteq> Some CONNECTING \<Longrightarrow> ws (unmount s) \<noteq> Some CONNECTING"
  by (auto simp: unmount_def interval_cleanup_def timers_cleanup_def ws_cleanup_def
      split: option.splits)

lemma step_torn_messages:
  assumes "\<not> mounted s" and "visibleTimers s = []" and "enabled ev s"
  shows "messages (step e ev t s) = messages s \<or> (\<exists>m. messages (step e ev t s) = messages s @ [m])"
  using assms step_messages_cases [of e ev t s] by (cases ev) auto

lemma run_torn_prefix:
  assumes "\<not> mounted s" and "visibleTimers s = []"
  shows "take (length (messages s)) (messages (run e evs s)) = messages s"
proof (induction evs rule: rev_induct)
  case Nil
  show ?case by (simp add: run_def)
next
  case (snoc et evs)
  let ?r = "run e evs s"
  from run_torn [OF assms, of e evs]
  have torn: "\<not> mounted ?r" "visibleTimers ?r = []" by simp_all
  from snoc.IH have len: "length (messages s) \<le> length (messages ?r)"
    by (metis length_take min.cobounded1)
  show ?case
  proof (cases "enabled (fst et) ?r")
    case True
    from step_torn_messages [OF torn True, of e "snd et"] snoc.IH len show ?thesis
      by (auto simp: run_snoc next_state_def True)
  next
    case False
    with snoc.IH show ?thesis by (simp add: run_snoc next_state_def)
  qed
qed

text \<open>
  The teardown itself: lines 104 to 111 leave no timeout pending and fire none, so the store
  is what it was and no hide can fire in any later state; when the socket was not still
  connecting, no later event reaches \<open>setMessages\<close> at all.
\<close>

lemma teardown_clears_timers:
  "visibleTimers (unmount s) = []
   \<and> messages (unmount s) = messages s
   \<and> \<not> enabled (HideTimer k) (run e evs (unmount s))
   \<and> (ws s \<noteq> Some CONNECTING \<longrightarrow> messages (run e evs (unmount s)) = messages s)"
proof -
  have "\<not> enabled (HideTimer k) (run e evs (unmount s))"
    using run_torn [of "unmount s" e evs] by simp
  moreover have "messages (run e evs (unmount s)) = messages s" if "ws s \<noteq> Some CONNECTING"
    using run_closed [of "unmount s" e evs] ws_unmount [of s] that by simp
  ultimately show ?thesis by simp
qed

subsection \<open>The progress value\<close>

lemma tick_progress:
  assumes "filter (\<lambda>v. v \<noteq> 0) (map (\<lambda>e. start (snd e)) (visibleTimers s)) = starts"
    and "starts \<noteq> []"
  shows "loadingValue (tick now s) = min 100 (100 * of_int (now - Min (set starts)) / 5000)"
proof -
  have "(x / 5000) * 100 = 100 * x / 5000" for x :: rat
    by simp
  then have "loadingValue (tick now s) = min 100 (100 * of_int (now - Min (set starts)) / 5000)"
    using assms by (simp only: tick_def Let_def MESSAGE_VISIBLE_TIME_MS_def if_False)
      (simp del: of_int_diff)
  then show ?thesis .
qed

lemma tick_progress_bounds:
  assumes "filter (\<lambda>v. v \<noteq> 0) (map (\<lambda>e. start (snd e)) (visibleTimers s)) = starts"
    and "starts \<noteq> [] \<longrightarrow> Min (set starts) \<le> now"
  shows "0 \<le> loadingValue (tick now s) \<and> loadingValue (tick now s) \<le> 100"
proof (cases "starts = []")
  case True
  with assms show ?thesis by (simp add: tick_def)
next
  case False
  with assms tick_progress [OF assms(1) False, of now] show ?thesis by simp
qed

subsection \<open>Normalising participants\<close>

lemma normalize_all_nth:
  "normalize_all a us = Inr ps \<Longrightarrow>
     length ps = length us \<and> (\<forall>i<length us. normalize (a + i) (us ! i) = Inr (ps ! i))"
proof (induction us arbitrary: a ps)
  case Nil
  then show ?case by simp
next
  case (Cons u us)
  from Cons.prems obtain p ps' where p: "normalize a u = Inr p"
    and ps': "normalize_all (Suc a) us = Inr ps'" and eq: "ps = p # ps'"
    by (auto split: sum.splits)
  from Cons.IH [OF ps'] have len: "length ps' = length us"
    and nth: "\<And>i. i < length us \<Longrightarrow> normalize (Suc a + i) (us ! i) = Inr (ps' ! i)"
    by simp_all
  show ?case
  proof (intro conjI allI impI)
    show "length ps = length (u # us)" using len eq by simp
  next
    fix i assume "i < length (u # us)"
    then show "normalize (a + i) ((u # us) ! i) = Inr (ps ! i)"
      using p nth eq by (cases i) simp_all
  qed
qed

section \<open>The claims\<close>

text \<open>
  Claim C1, as the code has it. One event leaves the store as it is, or appends one message,
  or (a hide timeout of id \<open>k\<close>) sets \<open>visible\<close> to false on every stored message whose id
  is \<open>k\<close>, whatever its sender; no other field of a stored message ever changes and nothing
  is removed or reordered. Over any sequence of events a message that is not visible never
  becomes visible again, so its flag goes from true to false at most once. In a mounted view
  every visible bot message has its hide timeout pending, and when that timeout fires every
  message with its id is hidden. After the teardown every stored message stays as it is, so
  a bot message that was still visible stays visible.
\<close>

theorem store_append_only_visible_monotone:
  "(messages (step e ev t s) = messages s
      \<or> (\<exists>m. messages (step e ev t s) = messages s @ [m])
      \<or> (\<exists>k. ev = HideTimer k
             \<and> messages (step e ev t s) =
                 map (\<lambda>msg. if strict_eq (id_m msg) k then msg\<lparr>visible := Some False\<rparr> else msg)
                   (messages s)))
   \<and> evolves (messages s) (messages (run e evs s))
   \<and> (\<forall>i<length (messages s).
         visible (messages s ! i) \<noteq> Some True \<longrightarrow>
         visible (messages (run e evs s) ! i) \<noteq> Some True)
   \<and> (\<forall>m\<in>set (messages (run e evs (mount ws_ok t0))).
         mounted (run e evs (mount ws_ok t0)) \<and> is_loading m \<longrightarrow>
           enabled (HideTimer (id_m m)) (run e evs (mount ws_ok t0))
           \<and> (\<forall>m'\<in>set (messages (step e (HideTimer (id_m m)) t (run e evs (mount ws_ok t0)))).
                 strict_eq (id_m m') (id_m m) \<longrightarrow> visible m' = Some False))
   \<and> take (length (messages s)) (messages (run e evs (unmount s))) = messages s"
proof (intro conjI)
  show "messages (step e ev t s) = messages s
      \<or> (\<exists>m. messages (step e ev t s) = messages s @ [m])
      \<or> (\<exists>k. ev = HideTimer k
             \<and> messages (step e ev t s) =
                 map (\<lambda>msg. if strict_eq (id_m msg) k then msg\<lparr>visible := Some False\<rparr> else msg)
                   (messages s))"
    by (rule step_messages_cases)
  show "evolves (messages s) (messages (run e evs s))"
    by (rule run_evolves)
  show "\<forall>i<length (messages s).
         visible (messages s ! i) \<noteq> Some True \<longrightarrow>
         visible (messages (run e evs s) ! i) \<noteq> Some True"
    using evolves_visible [OF run_evolves] by blast
  show "\<forall>m\<in>set (messages (run e evs (mount ws_ok t0))).
         mounted (run e evs (mount ws_ok t0)) \<and> is_loading m \<longrightarrow>
           enabled (HideTimer (id_m m)) (run e evs (mount ws_ok t0))
           \<and> (\<forall>m'\<in>set (messages (step e (HideTimer (id_m m)) t (run e evs (mount ws_ok t0)))).
                 strict_eq (id_m m') (id_m m) \<longrightarrow> visible m' = Some False)"
    using run_covers step_hide_hidden by (metis enabled.simps(3))
  show "take (length (messages s)) (messages (run e evs (unmount s))) = messages s"
    using run_torn_prefix [of "unmount s" e evs] by simp
qed

theorem store_append_only_visible_monotone_witness:
  "visible (messages (run \<lparr>JSON_parse = Map.empty, window_player_name = Undefined\<rparr>
       [(HideTimer (Num 1), 6000)] (mount True 1000)) ! 0) \<noteq> Some True
   \<and> visible (messages (run \<lparr>JSON_parse = Map.empty, window_player_name = Undefined\<rparr>
       [(SetText (ascii ''yo''), 6100), (Send 6200 False, 6200)]
       (run \<lparr>JSON_parse = Map.empty, window_player_name = Undefined\<rparr>
         [(HideTimer (Num 1), 6000)] (mount True 1000))) ! 0) \<noteq> Some True
   \<and> length (messages (run \<lparr>JSON_parse = Map.empty, window_player_name = Undefined\<rparr>
       [(SetText (ascii ''yo''), 6100), (Send 6200 False, 6200)]
       (run \<lparr>JSON_parse = Map.empty, window_player_name = Undefined\<rparr>
         [(HideTimer (Num 1), 6000)] (mount True 1000)))) = 2
   \<and> initial_message \<in> set (messages (run
       \<lparr>JSON_parse = Map.empty, window_player_name = Undefined\<rparr> [] (mount True 1000)))
   \<and> mounted (run \<lparr>JSON_parse = Map.empty, window_player_name = Undefined\<rparr> [] (mount True 1000))
   \<and> is_loading initial_message
   \<and> enabled (HideTimer (id_m initial_message))
        (run \<lparr>JSON_parse = Map.empty, window_player_name = Undefined\<rparr> [] (mount True 1000))
   \<and> visible (messages (run \<lparr>JSON_parse = Map.empty, window_player_name = Undefined\<rparr>
       [(HideTimer (Num 1), 6000)] (unmount (mount True 1000))) ! 0) = Some True"
proof -
  let ?e = "\<lparr>JSON_parse = Map.empty, window_player_name = Undefined\<rparr>"
  let ?s = "run ?e [(HideTimer (Num 1), 6000)] (mount True 1000)"
  let ?evs = "[(SetText (ascii ''yo''), 6100), (Send 6200 False, 6200)]"
  have s: "?s = (mount True 1000)\<lparr>messages := [initial_message\<lparr>visible := Some False\<rparr>],
                  visibleTimers := [], interval := False\<rparr>"
    by (simp add: run_def next_state_def mount_eq has_def strict_eq_def initial_message_def
        hide_def delete_def rerender_def schedule_def schedule_one_def progress_effect_def
        is_loading_def)
  have len: "length (messages (run ?e ?evs ?s)) = 2"
    unfolding s
    by (simp add: run_def next_state_def mount_eq send_messages trim_def is_ws_def ascii_def)
  have first: "visible (messages ?s ! 0) \<noteq> Some True"
    unfolding s by simp
  have init: "initial_message \<in> set (messages (run ?e [] (mount True 1000)))"
    "mounted (run ?e [] (mount True 1000))" "is_loading initial_message"
    by (simp_all add: run_def mount_eq is_loading_def initial_message_def)
  from store_append_only_visible_monotone [of ?e Unmount 0 ?s ?evs True 1000]
  have mono: "\<forall>i<length (messages ?s). visible (messages ?s ! i) \<noteq> Some True \<longrightarrow>
                visible (messages (run ?e ?evs ?s) ! i) \<noteq> Some True"
    by blast
  from store_append_only_visible_monotone [of ?e Unmount 0 ?s "[]" True 1000]
  have sched: "\<forall>m\<in>set (messages (run ?e [] (mount True 1000))).
                  mounted (run ?e [] (mount True 1000)) \<and> is_loading m \<longrightarrow>
                  enabled (HideTimer (id_m m)) (run ?e [] (mount True 1000))"
    by blast
  have "0 < length (messages ?s)"
    unfolding s by simp
  with mono first have "visible (messages (run ?e ?evs ?s) ! 0) \<noteq> Some True"
    by blast
  moreover from sched init
  have "enabled (HideTimer (id_m initial_message)) (run ?e [] (mount True 1000))"
    by blast
  moreover have "visible (messages (run ?e [(HideTimer (Num 1), 6000)] (unmount (mount True 1000))) ! 0)
             = Some True"
  proof -
    let ?r = "run ?e [(HideTimer (Num 1), 6000)] (unmount (mount True 1000))"
    from store_append_only_visible_monotone
      [of ?e Unmount 0 "mount True 1000" "[(HideTimer (Num 1), 6000)]" True 1000]
    have "take (length (messages (mount True 1000))) (messages ?r) = messages (mount True 1000)"
      by blast
    then have t: "take (Suc 0) (messages ?r) = [initial_message]"
      by (simp add: mount_eq)
    have "messages ?r ! 0 = take (Suc 0) (messages ?r) ! 0"
      by simp
    with t have "messages ?r ! 0 = initial_message"
      by simp
    then show ?thesis
      by (simp add: initial_message_def)
  qed
  ultimately show ?thesis using first len init by blast
qed

text \<open>
  A message sent by the user \<open>al\<close> at \<open>Date.now() = 1500\<close> has the id 1500 and no
  \<open>visible\<close> property. A bot message then arrives with the id 1500, and when its hide
  timeout fires the user's message gets \<open>visible\<close> set to false as well.
\<close>

theorem hide_timer_id_collision_counterexample:
  \<open>messages (run
      \<lparr>JSON_parse = [ascii ''{"id":1500,"sender":"teamtext-bot","text":"hi"}'' \<mapsto>
                       Obj 0 [(ascii ''id'', Num 1500), (ascii ''sender'', Str teamtext_bot),
                              (ascii ''text'', Str (ascii ''hi''))]],
       window_player_name = Str (ascii ''al'')\<rparr>
      [(SetText (ascii ''yo''), 1400), (Send 1500 False, 1500), (WsOpen, 1600),
       (Inbound (ascii ''{"id":1500,"sender":"teamtext-bot","text":"hi"}'') 1700, 1700)]
      (mount True 1000)) ! 1
    = \<lparr>id_m = Num 1500, sender = Str (ascii ''al''), text_m = Str (ascii ''yo''), visible = None\<rparr>
   \<and> messages (run
      \<lparr>JSON_parse = [ascii ''{"id":1500,"sender":"teamtext-bot","text":"hi"}'' \<mapsto>
                       Obj 0 [(ascii ''id'', Num 1500), (ascii ''sender'', Str teamtext_bot),
                              (ascii ''text'', Str (ascii ''hi''))]],
       window_player_name = Str (ascii ''al'')\<rparr>
      [(SetText (ascii ''yo''), 1400), (Send 1500 False, 1500), (WsOpen, 1600),
       (Inbound (ascii ''{"id":1500,"sender":"teamtext-bot","text":"hi"}'') 1700, 1700),
       (HideTimer (Num 1500), 6700)]
      (mount True 1000)) ! 1
    = \<lparr>id_m = Num 1500, sender = Str (ascii ''al''), text_m = Str (ascii ''yo''),
       visible = Some False\<rparr>
   \<and> Str (ascii ''al'') \<noteq> Str teamtext_bot\<close>
  by (simp add: run_def next_state_def mount_eq send_def Let_def trim_def is_ws_def
      wsRef_current_def onopen_def rerender_def schedule_def schedule_one_def has_def
      progress_effect_def onmessage_def onmessage_try_def js_or_def hide_def delete_def
      is_loading_def strict_eq_def initial_message_def ascii_def teamtext_bot_def)

text \<open>
  Claim C2. At a sampling tick the progress value is \<open>min(100, 100 * (now - minStart) / 5000)\<close>
  over the registered start instants (lemma \<open>tick_progress\<close>), and it lies in \<open>[0, 100]\<close>
  when \<open>now\<close> is not earlier than the earliest start (lemma \<open>tick_progress_bounds\<close>). The
  callback clamps from above only: with the view mounted at \<open>Date.now() = 10000\<close> and a tick
  that reads \<open>Date.now() = 5000\<close>, a bot message is visible, the tick is due, and the progress
  value becomes \<open>-100\<close>.
\<close>

theorem tick_clock_backwards_negative:
  "list_ex is_loading (messages (mount True 10000))
   \<and> enabled (Tick 5000) (mount True 10000)
   \<and> loadingValue (step \<lparr>JSON_parse = Map.empty, window_player_name = Undefined\<rparr>
        (Tick 5000) 5000 (mount True 10000)) = - 100"
  by (simp add: mount_eq tick_def MESSAGE_VISIBLE_TIME_MS_def is_loading_def initial_message_def)

text \<open>
  Claim C3, as the handler has it. For an inbound event whose payload parses: when the
  payload's \<open>sender\<close> is \<open>'teamtext-bot'\<close>, exactly one message is appended, with that
  sender, \<open>visible\<close> true, the payload's \<open>id\<close> when that is truthy and \<open>Date.now()\<close>
  otherwise (also for an id that is present but \<open>0\<close>, \<open>''\<close>, \<open>false\<close> or \<open>null\<close>), and
  the payload's \<open>text\<close> when that is truthy and \<open>''\<close> otherwise; for every other payload
  the whole state is left as it was.
\<close>

theorem onmessage_parsed:
  assumes "JSON_parse e data = Some payload"
  shows "(get_prop payload (ascii ''sender'') = Inr (Str teamtext_bot) \<longrightarrow>
            (\<exists>pid ptext. get_prop payload (ascii ''id'') = Inr pid
               \<and> get_prop payload (ascii ''text'') = Inr ptext
               \<and> messages (onmessage e now data s) =
                   messages s @
                     [\<lparr>id_m = (if truthy pid then pid else Num (of_int now)),
                       sender = Str teamtext_bot,
                       text_m = (if truthy ptext then ptext else Str []),
                       visible = Some True\<rparr>]
               \<and> messages (step e (Inbound data now) t s) = messages (onmessage e now data s)))
         \<and> (get_prop payload (ascii ''sender'') \<noteq> Inr (Str teamtext_bot) \<longrightarrow>
              onmessage e now data s = s \<and> step e (Inbound data now) t s = s)"
proof (cases payload)
  case (Obj r kvs)
  then show ?thesis using assms
    by (simp add: onmessage_def onmessage_try_def js_or_def Let_def)
qed (use assms in \<open>simp_all add: onmessage_def onmessage_try_def js_or_def\<close>)

theorem onmessage_parsed_witness:
  \<open>JSON_parse
      \<lparr>JSON_parse = [ascii ''{"id":7,"sender":"teamtext-bot","text":"hi"}'' \<mapsto>
                       Obj 0 [(ascii ''id'', Num 7), (ascii ''sender'', Str teamtext_bot),
                              (ascii ''text'', Str (ascii ''hi''))],
                     ascii ''{"sender":"al"}'' \<mapsto> Obj 1 [(ascii ''sender'', Str (ascii ''al''))]],
       window_player_name = Undefined\<rparr>
      (ascii ''{"id":7,"sender":"teamtext-bot","text":"hi"}'')
    = Some (Obj 0 [(ascii ''id'', Num 7), (ascii ''sender'', Str teamtext_bot),
                   (ascii ''text'', Str (ascii ''hi''))])
   \<and> messages (step
      \<lparr>JSON_parse = [ascii ''{"id":7,"sender":"teamtext-bot","text":"hi"}'' \<mapsto>
                       Obj 0 [(ascii ''id'', Num 7), (ascii ''sender'', Str teamtext_bot),
                              (ascii ''text'', Str (ascii ''hi''))],
                     ascii ''{"sender":"al"}'' \<mapsto> Obj 1 [(ascii ''sender'', Str (ascii ''al''))]],
       window_player_name = Undefined\<rparr>
      (Inbound (ascii ''{"id":7,"sender":"teamtext-bot","text":"hi"}'') 1500) 1501 (mount True 1000))
    = [initial_message,
       \<lparr>id_m = Num 7, sender = Str teamtext_bot, text_m = Str (ascii ''hi''), visible = Some True\<rparr>]
   \<and> step
      \<lparr>JSON_parse = [ascii ''{"id":7,"sender":"teamtext-bot","text":"hi"}'' \<mapsto>
                       Obj 0 [(ascii ''id'', Num 7), (ascii ''sender'', Str teamtext_bot),
                              (ascii ''text'', Str (ascii ''hi''))],
                     ascii ''{"sender":"al"}'' \<mapsto> Obj 1 [(ascii ''sender'', Str (ascii ''al''))]],
       window_player_name = Undefined\<rparr>
      (Inbound (ascii ''{"sender":"al"}'') 1500) 1501 (mount True 1000)
    = mount True 1000\<close>
proof -
  let ?d1 = \<open>ascii ''{"id":7,"sender":"teamtext-bot","text":"hi"}''\<close>
  let ?d2 = \<open>ascii ''{"sender":"al"}''\<close>
  let ?p1 = "Obj 0 [(ascii ''id'', Num 7), (ascii ''sender'', Str teamtext_bot),
                    (ascii ''text'', Str (ascii ''hi''))]"
  let ?p2 = "Obj 1 [(ascii ''sender'', Str (ascii ''al''))]"
  let ?e = "\<lparr>JSON_parse = [?d1 \<mapsto> ?p1, ?d2 \<mapsto> ?p2], window_player_name = Undefined\<rparr>"
  have p1: "JSON_parse ?e ?d1 = Some ?p1" and p2: "JSON_parse ?e ?d2 = Some ?p2"
    by (simp_all add: ascii_def)
  have g: "get_prop ?p1 (ascii ''sender'') = Inr (Str teamtext_bot)"
    "get_prop ?p1 (ascii ''id'') = Inr (Num 7)"
    "get_prop ?p1 (ascii ''text'') = Inr (Str (ascii ''hi''))"
    "get_prop ?p2 (ascii ''sender'') \<noteq> Inr (Str teamtext_bot)"
    by (simp_all add: ascii_def teamtext_bot_def)
  from onmessage_parsed [OF p1, of 1500 "mount True 1000" 1501]
    onmessage_parsed [OF p2, of 1500 "mount True 1000" 1501] p1 g
  show ?thesis by (simp add: mount_eq)
qed

text \<open>
  The payload \<open>{"id":0,"sender":"teamtext-bot","text":"hi"}\<close> supplies the id \<open>0\<close>; the
  appended message has the id \<open>Date.now()\<close> instead.
\<close>

theorem onmessage_id_zero_counterexample:
  \<open>JSON_parse \<lparr>JSON_parse = [ascii ''{"id":0,"sender":"teamtext-bot","text":"hi"}'' \<mapsto>
                    Obj 0 [(ascii ''id'', Num 0), (ascii ''sender'', Str teamtext_bot),
                           (ascii ''text'', Str (ascii ''hi''))]],
                window_player_name = Undefined\<rparr>
       (ascii ''{"id":0,"sender":"teamtext-bot","text":"hi"}'')
     = Some (Obj 0 [(ascii ''id'', Num 0), (ascii ''sender'', Str teamtext_bot),
                    (ascii ''text'', Str (ascii ''hi''))])
   \<and> messages (onmessage
        \<lparr>JSON_parse = [ascii ''{"id":0,"sender":"teamtext-bot","text":"hi"}'' \<mapsto>
                    Obj 0 [(ascii ''id'', Num 0), (ascii ''sender'', Str teamtext_bot),
                           (ascii ''text'', Str (ascii ''hi''))]],
                window_player_name = Undefined\<rparr>
        1700000000000 (ascii ''{"id":0,"sender":"teamtext-bot","text":"hi"}'') (mount True 1000))
     = [initial_message,
        \<lparr>id_m = Num 1700000000000, sender = Str teamtext_bot, text_m = Str (ascii ''hi''),
         visible = Some True\<rparr>]
   \<and> Num 1700000000000 \<noteq> Num 0\<close>
  by (simp add: onmessage_def onmessage_try_def js_or_def mount_eq ascii_def teamtext_bot_def)

text \<open>
  Claim C4. For an inbound event whose payload does not parse, \<open>JSON.parse\<close> throws inside
  the \<open>try\<close>, the handler catches it and returns: the only change of the state is one
  warning on the console, the message store is as it was, and no effect runs.
\<close>

theorem onmessage_unparseable:
  assumes "JSON_parse e data = None"
  shows "onmessage_try e now data s = Inl SyntaxError
         \<and> onmessage e now data s = s\<lparr>console := console s @ [Warn ''Failed to parse WS message'']\<rparr>
         \<and> messages (onmessage e now data s) = messages s
         \<and> messages (step e (Inbound data now) t s) = messages s"
  using assms by (simp add: onmessage_def onmessage_try_def)

theorem onmessage_unparseable_witness:
  "JSON_parse \<lparr>JSON_parse = Map.empty, window_player_name = Undefined\<rparr> (ascii ''oops'') = None
   \<and> messages (step \<lparr>JSON_parse = Map.empty, window_player_name = Undefined\<rparr>
        (Inbound (ascii ''oops'') 1500) 1501 (mount True 1000)) = [initial_message]
   \<and> onmessage \<lparr>JSON_parse = Map.empty, window_player_name = Undefined\<rparr> 1500 (ascii ''oops'')
        (mount True 1000)
      = (mount True 1000)\<lparr>console := [Warn ''Failed to parse WS message'']\<rparr>"
  using onmessage_unparseable [of "\<lparr>JSON_parse = Map.empty, window_player_name = Undefined\<rparr>"
      "ascii ''oops''" 1500 "mount True 1000" 1501]
  by (simp add: mount_eq)

text \<open>
  Claim C5. For every text that is not empty after trimming, \<open>send\<close> appends exactly one
  message to the store, whatever the socket's state and whether or not \<open>ws.send\<close> throws;
  when \<open>wsRef.current\<close> is null or the socket is not open, nothing is handed to the socket.
\<close>

theorem send_appends_once:
  assumes "trim (text_s s) \<noteq> []"
  shows "messages (send e now throws s) =
           messages s @ [\<lparr>id_m = Num (of_int now), sender = window_player_name e,
                          text_m = Str (trim (text_s s)), visible = None\<rparr>]
         \<and> messages (step e (Send now throws) t s) = messages (send e now throws s)
         \<and> (wsRef_current s \<noteq> Some OPEN_rs \<longrightarrow>
              outbox (send e now throws s) = outbox s
              \<and> outbox (step e (Send now throws) t s) = outbox s)"
  using assms by (simp add: send_def Let_def)

theorem send_appends_once_witness:
  "trim (text_s ((mount False 1000)\<lparr>text_s := ascii ''hi''\<rparr>)) \<noteq> []
   \<and> wsRef_current ((mount False 1000)\<lparr>text_s := ascii ''hi''\<rparr>) \<noteq> Some OPEN_rs
   \<and> messages (step \<lparr>JSON_parse = Map.empty, window_player_name = Str (ascii ''al'')\<rparr>
        (Send 1500 False) 1501 ((mount False 1000)\<lparr>text_s := ascii ''hi''\<rparr>))
      = [initial_message,
         \<lparr>id_m = Num 1500, sender = Str (ascii ''al''), text_m = Str (ascii ''hi''), visible = None\<rparr>]
   \<and> outbox (step \<lparr>JSON_parse = Map.empty, window_player_name = Str (ascii ''al'')\<rparr>
        (Send 1500 False) 1501 ((mount False 1000)\<lparr>text_s := ascii ''hi''\<rparr>)) = []"
  using send_appends_once [of "(mount False 1000)\<lparr>text_s := ascii ''hi''\<rparr>"
      "\<lparr>JSON_parse = Map.empty, window_player_name = Str (ascii ''al'')\<rparr>" 1500 False 1501]
  by (simp add: mount_eq trim_def is_ws_def ascii_def wsRef_current_def)

text \<open>
  Claim C6. The teardown clears every pending hide timeout and fires none, and no hide
  timeout can fire afterwards (lemma \<open>teardown_clears_timers\<close>). An update of the store
  after the teardown is a call of \<open>setMessages\<close> on the destroyed view, which is what the
  timer cleanup is there to prevent (React discards such an update). The socket cleanup
  closes an open socket only: a view with one pending timeout is torn down while its socket
  is still connecting, the socket then opens and delivers a bot message, and the handler
  still appends it with \<open>setMessages\<close>.
\<close>

theorem teardown_connecting_socket_late_append:
  \<open>length (visibleTimers (mount True 1000)) = 1
   \<and> messages (unmount (mount True 1000)) = [initial_message]
   \<and> messages (run
        \<lparr>JSON_parse = [ascii ''{"id":7,"sender":"teamtext-bot","text":"hi"}'' \<mapsto>
                         Obj 0 [(ascii ''id'', Num 7), (ascii ''sender'', Str teamtext_bot),
                                (ascii ''text'', Str (ascii ''hi''))]],
         window_player_name = Undefined\<rparr>
        [(WsOpen, 1200),
         (Inbound (ascii ''{"id":7,"sender":"teamtext-bot","text":"hi"}'') 1300, 1300)]
        (unmount (mount True 1000)))
     = [initial_message,
        \<lparr>id_m = Num 7, sender = Str teamtext_bot, text_m = Str (ascii ''hi''),
         visible = Some True\<rparr>]\<close>
  by (simp add: run_def next_state_def mount_eq unmount_def interval_cleanup_def timers_cleanup_def
      ws_cleanup_def onopen_def onmessage_def onmessage_try_def js_or_def rerender_def
      ascii_def teamtext_bot_def)

text \<open>
  Claim C7. In every state the view reaches from its mount, when no bot message is visible
  the progress value is 0, no interval is set and no sampling tick can occur; the reset is
  made by the effect that runs with the event that hid the last visible bot message.
  While the view is mounted and a bot message is visible, the interval is set.
\<close>

theorem idle_resets_progress:
  "(\<not> list_ex is_loading (messages (run e evs (mount ws_ok t0))) \<longrightarrow>
       loadingValue (run e evs (mount ws_ok t0)) = 0
       \<and> \<not> interval (run e evs (mount ws_ok t0))
       \<and> \<not> enabled (Tick now) (run e evs (mount ws_ok t0)))
   \<and> (mounted (run e evs (mount ws_ok t0))
        \<and> list_ex is_loading (messages (run e evs (mount ws_ok t0))) \<longrightarrow>
       interval (run e evs (mount ws_ok t0)))"
  using run_progress_inv [of e evs ws_ok t0] by (simp add: progress_inv_def)

theorem idle_resets_progress_witness:
  "loadingValue (run \<lparr>JSON_parse = Map.empty, window_player_name = Undefined\<rparr>
      [(Tick 3500, 3500)] (mount True 1000)) = 50
   \<and> interval (run \<lparr>JSON_parse = Map.empty, window_player_name = Undefined\<rparr>
      [(Tick 3500, 3500)] (mount True 1000))
   \<and> \<not> list_ex is_loading (messages (run \<lparr>JSON_parse = Map.empty, window_player_name = Undefined\<rparr>
      [(Tick 3500, 3500), (HideTimer (Num 1), 6000)] (mount True 1000)))
   \<and> loadingValue (run \<lparr>JSON_parse = Map.empty, window_player_name = Undefined\<rparr>
      [(Tick 3500, 3500), (HideTimer (Num 1), 6000)] (mount True 1000)) = 0
   \<and> \<not> interval (run \<lparr>JSON_parse = Map.empty, window_player_name = Undefined\<rparr>
      [(Tick 3500, 3500), (HideTimer (Num 1), 6000)] (mount True 1000))"
proof -
  let ?e = "\<lparr>JSON_parse = Map.empty, window_player_name = Undefined\<rparr>"
  have a: "run ?e [(Tick 3500, 3500)] (mount True 1000) = (mount True 1000)\<lparr>loadingValue := 50\<rparr>"
    by (simp add: run_def next_state_def mount_eq tick_def MESSAGE_VISIBLE_TIME_MS_def)
  have b: "\<not> list_ex is_loading
      (messages (run ?e [(Tick 3500, 3500), (HideTimer (Num 1), 6000)] (mount True 1000)))"
    by (simp add: run_def next_state_def mount_eq tick_def MESSAGE_VISIBLE_TIME_MS_def hide_def
        has_def strict_eq_def is_loading_def initial_message_def)
  from a b idle_resets_progress [of ?e "[(Tick 3500, 3500), (HideTimer (Num 1), 6000)]" True 1000]
    idle_resets_progress [of ?e "[(Tick 3500, 3500)]" True 1000]
  show ?thesis by (simp add: mount_eq)
qed

text \<open>
  Claim C8. When the hide timeout of id \<open>k\<close> fires, the store keeps its length and order;
  every message whose id is \<open>k\<close> gets \<open>visible\<close> set to false and keeps its other fields,
  every other message is untouched; when no message has the id \<open>k\<close> the store is
  unchanged; and the timer map has no entry for \<open>k\<close> afterwards, also after the effects
  that follow.
\<close>

theorem hide_only_flips:
  "length (messages (hide k s)) = length (messages s)
   \<and> (\<forall>i<length (messages s).
         messages (hide k s) ! i =
           (if strict_eq (id_m (messages s ! i)) k
            then (messages s ! i)\<lparr>visible := Some False\<rparr> else messages s ! i))
   \<and> ((\<forall>m\<in>set (messages s). \<not> strict_eq (id_m m) k) \<longrightarrow> messages (hide k s) = messages s)
   \<and> \<not> has (visibleTimers (hide k s)) k
   \<and> messages (step e (HideTimer k) t s) = messages (hide k s)
   \<and> \<not> has (visibleTimers (step e (HideTimer k) t s)) k"
proof -
  have "(\<forall>m\<in>set (messages s). \<not> strict_eq (id_m m) k) \<longrightarrow> messages (hide k s) = messages s"
    by (simp add: messages_hide map_idI)
  then show ?thesis
    by (simp add: messages_hide has_rerender_hide) (simp add: hide_def)
qed

theorem hide_only_flips_witness:
  "messages (hide (Num 1) (mount True 1000)) ! 0 = initial_message\<lparr>visible := Some False\<rparr>
   \<and> length (messages (hide (Num 1) (mount True 1000))) = 1
   \<and> has (visibleTimers (mount True 1000)) (Num 1)
   \<and> \<not> has (visibleTimers (hide (Num 1) (mount True 1000))) (Num 1)
   \<and> messages (hide (Num 2) (mount True 1000)) = messages (mount True 1000)"
  using hide_only_flips [of "Num 1" "mount True 1000"] hide_only_flips [of "Num 2" "mount True 1000"]
  by (simp add: mount_eq initial_message_def strict_eq_def has_def)

text \<open>
  Claim C9, as \<open>fetchParticipants\<close> has it. For the \<open>i\<close>-th record of a successful poll,
  the normalized record has the record's \<open>user_id\<close>; its \<open>player_name\<close> when that is
  truthy and its \<open>user_id\<close> otherwise (when the name is missing, and also when it is the
  empty string); \<open>connected\<close> coerced to a boolean; and its \<open>messages_sent\<close> when that is
  truthy (every array is) and a new empty array otherwise.
\<close>

theorem fetchParticipants_normalized:
  assumes "fetchParticipants_try (Response True status (Some (Arr r us))) a = Inr ps"
    and "i < length us"
    and "get_prop (us ! i) (ascii ''user_id'') = Inr uid"
    and "get_prop (us ! i) (ascii ''player_name'') = Inr pn"
    and "get_prop (us ! i) (ascii ''connected'') = Inr c"
    and "get_prop (us ! i) (ascii ''messages_sent'') = Inr ms"
  shows "participants (fetchParticipants (Response True status (Some (Arr r us))) a s) = ps
         \<and> length ps = length us
         \<and> ps ! i = \<lparr>user_id = uid,
                      player_name = (if truthy pn then pn else uid),
                      connected = truthy c,
                      messages_sent = (if truthy ms then ms else Arr (a + i) [])\<rparr>"
proof -
  from assms(1) have all: "normalize_all a us = Inr ps"
    by (simp add: fetchParticipants_try_def split: sum.splits)
  from normalize_all_nth [OF all] assms(2)
  have len: "length ps = length us" and n: "normalize (a + i) (us ! i) = Inr (ps ! i)"
    by simp_all
  have "normalize (a + i) (us ! i) =
          Inr \<lparr>user_id = uid, player_name = (if truthy pn then pn else uid), connected = truthy c,
               messages_sent = (if truthy ms then ms else Arr (a + i) [])\<rparr>"
    using assms(3-6) by (simp add: normalize_def js_or_def)
  with n len assms(1) show ?thesis
    by (simp add: fetchParticipants_def)
qed

theorem fetchParticipants_normalized_witness:
  "fetchParticipants_try
     (Response True 200 (Some (Arr 0 [Obj 1 [(ascii ''user_id'', Str (ascii ''u1'')),
                                             (ascii ''connected'', Num 1)]]))) 5
     = Inr [\<lparr>user_id = Str (ascii ''u1''), player_name = Str (ascii ''u1''), connected = True,
             messages_sent = Arr 5 []\<rparr>]
   \<and> participants (fetchParticipants
        (Response True 200 (Some (Arr 0 [Obj 1 [(ascii ''user_id'', Str (ascii ''u1'')),
                                                (ascii ''connected'', Num 1)]]))) 5
        \<lparr>participants = [], loading = True, error = None\<rparr>) ! 0
     = \<lparr>user_id = Str (ascii ''u1''), player_name = Str (ascii ''u1''), connected = True,
        messages_sent = Arr 5 []\<rparr>"
proof -
  let ?u = "Obj 1 [(ascii ''user_id'', Str (ascii ''u1'')), (ascii ''connected'', Num 1)]"
  let ?p = "\<lparr>user_id = Str (ascii ''u1''), player_name = Str (ascii ''u1''), connected = True,
             messages_sent = Arr 5 []\<rparr>"
  have t: "fetchParticipants_try (Response True 200 (Some (Arr 0 [?u]))) 5 = Inr [?p]"
    by (simp add: fetchParticipants_try_def normalize_def js_or_def ascii_def)
  have "participants (fetchParticipants (Response True 200 (Some (Arr 0 [?u]))) 5
          \<lparr>participants = [], loading = True, error = None\<rparr>) = [?p]"
    using fetchParticipants_normalized [of 200 0 "[?u]" 5 "[?p]" 0 "Str (ascii ''u1'')" Undefined
        "Num 1" Undefined "\<lparr>participants = [], loading = True, error = None\<rparr>", OF t]
    by (simp add: ascii_def)
  with t show ?thesis by simp
qed

text \<open>
  A record that supplies the empty string as its \<open>player_name\<close> is listed under its
  \<open>user_id\<close>.
\<close>

theorem fetchParticipants_empty_name_counterexample:
  "participants (fetchParticipants
     (Response True 200 (Some (Arr 0 [Obj 1 [(ascii ''user_id'', Str (ascii ''u1'')),
                                             (ascii ''player_name'', Str []),
                                             (ascii ''connected'', Bool True)]]))) 5
     \<lparr>participants = [], loading = True, error = None\<rparr>)
     = [\<lparr>user_id = Str (ascii ''u1''), player_name = Str (ascii ''u1''), connected = True,
         messages_sent = Arr 5 []\<rparr>]
   \<and> Str (ascii ''u1'') \<noteq> Str []"
  by (simp add: fetchParticipants_def fetchParticipants_try_def normalize_def js_or_def ascii_def)

text \<open>
  Claim C10. When the composed text is empty after trimming, \<open>send\<close> returns at once: the
  whole state is as it was (store, frames handed to the socket, composed text), and no
  effect runs. Otherwise the appended message carries the trimmed text.
\<close>

theorem send_blank_noop:
  "(trim (text_s s) = [] \<longrightarrow> send e now throws s = s \<and> step e (Send now throws) t s = s)
   \<and> (trim (text_s s) \<noteq> [] \<longrightarrow>
        messages (step e (Send now throws) t s) =
          messages s @ [\<lparr>id_m = Num (of_int now), sender = window_player_name e,
                         text_m = Str (trim (text_s s)), visible = None\<rparr>])"
  by (simp add: send_def Let_def)

theorem send_blank_noop_witness:
  "trim (text_s ((mount True 1000)\<lparr>text_s := ascii '' ''\<rparr>)) = []
   \<and> send \<lparr>JSON_parse = Map.empty, window_player_name = Str (ascii ''al'')\<rparr> 1500 False
         ((mount True 1000)\<lparr>text_s := ascii '' ''\<rparr>) = (mount True 1000)\<lparr>text_s := ascii '' ''\<rparr>
   \<and> trim (text_s ((mount True 1000)\<lparr>text_s := ascii '' hi ''\<rparr>)) \<noteq> []
   \<and> messages (step \<lparr>JSON_parse = Map.empty, window_player_name = Str (ascii ''al'')\<rparr>
         (Send 1500 False) 1501 ((mount True 1000)\<lparr>text_s := ascii '' hi ''\<rparr>))
       = [initial_message,
          \<lparr>id_m = Num 1500, sender = Str (ascii ''al''), text_m = Str (ascii ''hi''), visible = None\<rparr>]"
  using send_blank_noop [of "(mount True 1000)\<lparr>text_s := ascii '' ''\<rparr>"
      "\<lparr>JSON_parse = Map.empty, window_player_name = Str (ascii ''al'')\<rparr>" 1500 False 1501]
    send_blank_noop [of "(mount True 1000)\<lparr>text_s := ascii '' hi ''\<rparr>"
      "\<lparr>JSON_parse = Map.empty, window_player_name = Str (ascii ''al'')\<rparr>" 1500 False 1501]
  by (simp add: mount_eq trim_def is_ws_def ascii_def)

end
